theory Spec2Isabelle
  imports Main "HOL-Library.Sublist"
begin

section \<open>Python library functions called by generation.py\<close>

text \<open>
  Strings are lists of characters. The script runs under CPython on a POSIX system, so
  \<open>os.path\<close> is \<open>posixpath\<close> and the path separator is the slash.
\<close>

datatype error =
    ValueError string
  | KeyError string
  | TypeError
  | AttributeError
  | FileNotFoundError string
  | LibraryError string

text \<open>
  \<open>str.replace(old, new)\<close>: scans from the left and replaces non-overlapping occurrences.
  With an empty pattern Python puts \<open>new\<close> before every character and at the end.
\<close>

function str_replace :: "string \<Rightarrow> string \<Rightarrow> string \<Rightarrow> string" where
  "str_replace old new s =
     (if old = [] then new @ concat (map (\<lambda>c. c # new) s)
      else if s = [] then []
      else if prefix old s then new @ str_replace old new (drop (length old) s)
      else hd s # str_replace old new (tl s))"
  by pat_completeness auto
termination
  by (relation "measure (\<lambda>(old, new, s). length s)") auto

declare str_replace.simps [simp del]

text \<open>\<open>sep.join(pieces)\<close>, used to state what a replacement does to a string cut at its markers.\<close>

fun join :: "string \<Rightarrow> string list \<Rightarrow> string" where
  "join sep [] = []"
| "join sep [p] = p"
| "join sep (p # q # ps) = p @ sep @ join sep (q # ps)"

text \<open>\<open>str.rfind(c)\<close> for a one-character pattern: the last index of \<open>c\<close>, or \<open>-1\<close>.\<close>

fun rfind :: "string \<Rightarrow> char \<Rightarrow> int" where
  "rfind [] c = - 1"
| "rfind (x # xs) c =
     (let r = rfind xs c in if 0 \<le> r then r + 1 else if x = c then 0 else - 1)"

text \<open>\<open>posixpath.basename\<close>: \<open>i = p.rfind('/') + 1; return p[i:]\<close>.\<close>

definition basename :: "string \<Rightarrow> string" where
  "basename p = (let i = rfind p (CHR ''/'') + 1 in drop (nat i) p)"

text \<open>
  \<open>genericpath._splitext\<close>: the extension starts at the last dot, provided that dot comes
  after the last separator and some character between the separator and the dot is not
  a dot (leading dots do not start an extension).
\<close>

function splitext_loop :: "string \<Rightarrow> nat \<Rightarrow> nat \<Rightarrow> string \<times> string" where
  "splitext_loop p filenameIndex dotIndex =
     (if filenameIndex < dotIndex then
        (if take 1 (drop filenameIndex p) \<noteq> ''.'' then (take dotIndex p, drop dotIndex p)
         else splitext_loop p (filenameIndex + 1) dotIndex)
      else (p, []))"
  by pat_completeness auto
termination
  by (relation "measure (\<lambda>(p, filenameIndex, dotIndex). dotIndex - filenameIndex)") auto

declare splitext_loop.simps [simp del]

definition splitext :: "string \<Rightarrow> string \<times> string" where
  "splitext p =
     (let sepIndex = rfind p (CHR ''/'');
          dotIndex = rfind p (CHR ''.'')
      in if sepIndex < dotIndex then splitext_loop p (nat (sepIndex + 1)) (nat dotIndex)
         else (p, []))"

text \<open>
  Iterating over a file opened in text mode: line endings \<open>\r\n\<close> and \<open>\r\<close> are read as
  \<open>\n\<close>, and each line is returned with its terminating \<open>\n\<close> (the last line may lack one).
\<close>

fun universal_newlines :: "string \<Rightarrow> string" where
  "universal_newlines [] = []"
| "universal_newlines [c] = (if c = CHR 0x0D then [CHR 0x0A] else [c])"
| "universal_newlines (c # d # cs) =
     (if c = CHR 0x0D \<and> d = CHR 0x0A then CHR 0x0A # universal_newlines cs
      else if c = CHR 0x0D then CHR 0x0A # universal_newlines (d # cs)
      else c # universal_newlines (d # cs))"

fun split_lines :: "string \<Rightarrow> string \<Rightarrow> string list" where
  "split_lines cur [] = (if cur = [] then [] else [cur])"
| "split_lines cur (c # cs) =
     (if c = CHR 0x0A then (cur @ [c]) # split_lines [] cs else split_lines (cur @ [c]) cs)"

definition readlines :: "string \<Rightarrow> string list" where
  "readlines content = split_lines [] (universal_newlines content)"

text \<open>
  Modelled from the spec: \<open>torch.utils.data.DataLoader\<close> is a class of an external library
  whose code is not part of the repository. Section 4.3 of the specification gives its
  contract: consecutive batches in the original order, each of up to \<open>batch_size\<close> records,
  the last one possibly smaller. The script keeps the defaults (no shuffling, no dropped
  last batch), under which the loader accumulates records one by one and yields the
  accumulated batch whenever it is full, and the non-empty rest at the end.
\<close>

fun batch_sampler :: "nat \<Rightarrow> 'a list \<Rightarrow> 'a list \<Rightarrow> 'a list list" where
  "batch_sampler batch_size batch [] = (if batch \<noteq> [] then [batch] else [])"
| "batch_sampler batch_size batch (x # xs) =
     (let batch' = batch @ [x]
      in if length batch' = batch_size then batch' # batch_sampler batch_size [] xs
         else batch_sampler batch_size batch' xs)"

definition DataLoader :: "'a list \<Rightarrow> nat \<Rightarrow> 'a list list" where
  "DataLoader dataset batch_size = batch_sampler batch_size [] dataset"

section \<open>The script\<close>

definition BATCH_SIZE :: nat where
  "BATCH_SIZE = 8"

definition MODEL_CHECKPOINTS :: "(string \<times> string) list" where
  "MODEL_CHECKPOINTS =
     [(''bart-xsum'', ''facebook/bart-large-xsum''),
      (''bart-cnndm'', ''facebook/bart-large-cnn''),
      (''pegasus-xsum'', ''google/pegasus-xsum''),
      (''pegasus-cnndm'', ''google/pegasus-cnn_dailymail''),
      (''pegasus-newsroom'', ''google/pegasus-newsroom''),
      (''pegasus-multinews'', ''google/pegasus-multi_news'')]"

text \<open>The parsed command line: argparse leaves an option that was not given at \<open>None\<close>.\<close>

record args =
  model :: "string option"
  model_name_or_path :: "string option"
  data_path :: "string option"

text \<open>Python's truth value of an optional string: \<open>None\<close> and the empty string are false.\<close>

definition truthy :: "string option \<Rightarrow> bool" where
  "truthy v = (case v of None \<Rightarrow> False | Some s \<Rightarrow> s \<noteq> [])"

text \<open>
  The world outside the process: the files by path, and the log of the effects the run
  has attempted so far, oldest first.
\<close>

datatype event =
    LoadModel string
  | LoadTokenizer string
  | OpenRead string
  | OpenWrite string
  | Write string string

record world =
  files :: "string \<rightharpoonup> string"
  events :: "event list"

definition log_event :: "event \<Rightarrow> world \<Rightarrow> world" where
  "log_event e w = w\<lparr>events := events w @ [e]\<rparr>"

text \<open>
  The external collaborators, taken as parameters: the JSON parser, the loaders of the
  pretrained model and tokenizer, the data loader's collation of a batch, and the three
  calls of the inference step. Each may raise.
\<close>

record ('r, 'm, 't, 'c, 'b, 's) env =
  json_loads :: "string \<Rightarrow> error + 'r"
  load_model :: "string \<Rightarrow> error + 'm"
  load_tokenizer :: "string \<Rightarrow> error + 't"
  collate :: "'r list \<Rightarrow> error + 'c"
  tokenize :: "'t \<Rightarrow> 'c \<Rightarrow> error + 'b"
  generate :: "'m \<Rightarrow> 'b \<Rightarrow> error + 's"
  batch_decode :: "'t \<Rightarrow> 's \<Rightarrow> error + string list"

subsection \<open>JSONDataset\<close>

text \<open>\<open>[json.loads(line) for line in fd]\<close>: the first line that fails to parse raises.\<close>

fun parse_lines :: "(string \<Rightarrow> error + 'r) \<Rightarrow> string list \<Rightarrow> error + 'r list" where
  "parse_lines loads [] = Inr []"
| "parse_lines loads (line # rest) =
     (case loads line of
        Inl e \<Rightarrow> Inl e
      | Inr v \<Rightarrow> (case parse_lines loads rest of Inl e \<Rightarrow> Inl e | Inr vs \<Rightarrow> Inr (v # vs)))"

definition JSONDataset ::
  "('r, 'm, 't, 'c, 'b, 's) env \<Rightarrow> string option \<Rightarrow> world \<Rightarrow> (error + 'r list) \<times> world" where
  "JSONDataset env path w =
     (case path of
        None \<Rightarrow> (Inl TypeError, w)
      | Some p \<Rightarrow>
          (case files w p of
             None \<Rightarrow> (Inl (FileNotFoundError p), log_event (OpenRead p) w)
           | Some content \<Rightarrow>
               (parse_lines (json_loads env) (readlines content), log_event (OpenRead p) w)))"

subsection \<open>postprocess_data\<close>

definition postprocess_data :: "string list \<Rightarrow> string list" where
  "postprocess_data decoded = map (\<lambda>x. str_replace ''<n>'' '' '' x) decoded"

subsection \<open>The main block\<close>

text \<open>
  Lines 74 to 86: the two checks, then the model identifier and the label for the file
  name. The checks and the branch test the option values for truth. The two \<open>None\<close>
  cases below cannot be reached after the checks; they carry what Python would raise there
  (a failed lookup of \<open>None\<close>, and \<open>replace\<close> called on \<open>None\<close>).
\<close>

definition select_model :: "args \<Rightarrow> error + (string \<times> string)" where
  "select_model a =
     (if \<not> (truthy (model a) \<or> truthy (model_name_or_path a)) then
        Inl (ValueError ''Model is required'')
      else if truthy (model a) \<and> truthy (model_name_or_path a) then
        Inl (ValueError ''Specify model or model_name_or_path but not both'')
      else if truthy (model a) then
        (case model a of
           None \<Rightarrow> Inl (KeyError [])
         | Some alias \<Rightarrow>
             (case map_of MODEL_CHECKPOINTS alias of
                None \<Rightarrow> Inl (KeyError alias)
              | Some checkpoint \<Rightarrow> Inr (checkpoint, alias)))
      else
        (case model_name_or_path a of
           None \<Rightarrow> Inl AttributeError
         | Some name \<Rightarrow> Inr (name, str_replace ''/'' ''-'' name)))"

definition open_write :: "string \<Rightarrow> world \<Rightarrow> world" where
  "open_write filename w = log_event (OpenWrite filename) (w\<lparr>files := (files w)(filename \<mapsto> [])\<rparr>)"

definition fd_write :: "string \<Rightarrow> string \<Rightarrow> world \<Rightarrow> world" where
  "fd_write filename text w =
     log_event (Write filename text)
       (w\<lparr>files := (files w)(filename \<mapsto>
            (case files w filename of None \<Rightarrow> [] | Some written \<Rightarrow> written) @ text)\<rparr>)"

text \<open>\<open>for example in postprocess_data(decoded): fd_out.write(example + '\n')\<close>\<close>

fun write_examples :: "string \<Rightarrow> string list \<Rightarrow> world \<Rightarrow> world" where
  "write_examples filename [] w = w"
| "write_examples filename (example # rest) w =
     write_examples filename rest (fd_write filename (example @ [CHR 0x0A]) w)"

text \<open>
  One batch through the data loader's collation and lines 102 to 104: the tokenizer applied
  to \<open>raw_data["document"]\<close> (the lookup is part of \<open>tokenize\<close>), generation, decoding.
\<close>

definition decode_batch ::
  "('r, 'm, 't, 'c, 'b, 's) env \<Rightarrow> 'm \<Rightarrow> 't \<Rightarrow> 'r list \<Rightarrow> error + string list" where
  "decode_batch env mdl tok records =
     (case collate env records of
        Inl e \<Rightarrow> Inl e
      | Inr raw_data \<Rightarrow>
          (case tokenize env tok raw_data of
             Inl e \<Rightarrow> Inl e
           | Inr batch \<Rightarrow>
               (case generate env mdl batch of
                  Inl e \<Rightarrow> Inl e
                | Inr summaries \<Rightarrow> batch_decode env tok summaries)))"

text \<open>The loop of lines 101 to 106; an exception leaves what was written so far.\<close>

fun generation_loop ::
  "('r, 'm, 't, 'c, 'b, 's) env \<Rightarrow> 'm \<Rightarrow> 't \<Rightarrow> string \<Rightarrow> 'r list list \<Rightarrow> world
     \<Rightarrow> error option \<times> world" where
  "generation_loop env mdl tok filename [] w = (None, w)"
| "generation_loop env mdl tok filename (records # rest) w =
     (case decode_batch env mdl tok records of
        Inl e \<Rightarrow> (Some e, w)
      | Inr decoded \<Rightarrow>
          generation_loop env mdl tok filename rest
            (write_examples filename (postprocess_data decoded) w))"

text \<open>
  The whole run, lines 74 to 106. The result is the uncaught exception, if any (the process
  then exits with a non-zero status), and the world the run leaves behind. Moving the model
  to the device is part of \<open>load_model\<close>; the progress bar, \<open>model.eval()\<close> and \<open>no_grad\<close> change
  nothing that is modelled. Opening the output file truncates it; the data path is read
  again for the file name, where \<open>None\<close> would raise as it does in \<open>open\<close>.
\<close>

definition main ::
  "('r, 'm, 't, 'c, 'b, 's) env \<Rightarrow> args \<Rightarrow> world \<Rightarrow> error option \<times> world" where
  "main env a w =
     (case select_model a of
        Inl e \<Rightarrow> (Some e, w)
      | Inr (name, file_model_name) \<Rightarrow>
          (let w1 = log_event (LoadModel name) w in
           case load_model env name of
             Inl e \<Rightarrow> (Some e, w1)
           | Inr mdl \<Rightarrow>
               (let w2 = log_event (LoadTokenizer name) w1 in
                case load_tokenizer env name of
                  Inl e \<Rightarrow> (Some e, w2)
                | Inr tok \<Rightarrow>
                    (case JSONDataset env (data_path a) w2 of
                       (Inl e, w3) \<Rightarrow> (Some e, w3)
                     | (Inr dataset, w3) \<Rightarrow>
                         (case data_path a of
                            None \<Rightarrow> (Some TypeError, w3)
                          | Some p \<Rightarrow>
                              (let dataloader = DataLoader dataset BATCH_SIZE;
                                   file_dataset_name = fst (splitext (basename p));
                                   filename = file_model_name @ ''.'' @ file_dataset_name
                                                @ ''.predictions'';
                                   w4 = open_write filename w3
                               in generation_loop env mdl tok filename dataloader w4))))))"

subsection \<open>A stand-in for the external collaborators\<close>

text \<open>
  Used to run the script on concrete inputs: a record is the line itself (a blank line
  does not parse), loading always succeeds, and the summary of a record is the record
  without its line break.
\<close>

definition echo_env :: "(string, string, string, string list, string list, string list) env" where
  "echo_env =
     \<lparr>json_loads = (\<lambda>line. if line = [CHR 0x0A] then Inl (LibraryError ''JSONDecodeError'') else Inr line),
      load_model = (\<lambda>name. Inr name),
      load_tokenizer = (\<lambda>name. Inr name),
      collate = (\<lambda>records. Inr records),
      tokenize = (\<lambda>tok raw_data. Inr raw_data),
      generate = (\<lambda>mdl batch. Inr batch),
      batch_decode = (\<lambda>tok summaries. Inr (map (filter (\<lambda>c. c \<noteq> CHR 0x0A)) summaries))\<rparr>"

section \<open>Post-processing\<close>

subsection \<open>Replacing the marker\<close>

lemma str_replace_Nil: "old \<noteq> [] \<Longrightarrow> str_replace old new [] = []"
  by (simp add: str_replace.simps)

lemma str_replace_hit:
  "old \<noteq> [] \<Longrightarrow> str_replace old new (old @ s) = new @ str_replace old new s"
  by (subst str_replace.simps) simp

lemma str_replace_miss:
  "old \<noteq> [] \<Longrightarrow> \<not> prefix old (c # s) \<Longrightarrow>
     str_replace old new (c # s) = c # str_replace old new s"
  by (subst str_replace.simps) simp

lemma prefix_marker_iff:
  "prefix ''<n>'' s \<longleftrightarrow> (\<exists>t. s = ''<n>'' @ t)"
  by (auto simp: prefix_def)

text \<open>No occurrence of the marker starts inside a marker-free piece and runs into the marker after it.\<close>

lemma marker_no_overlap:
  assumes "\<not> sublist ''<n>'' (c # p)"
  shows "\<not> prefix ''<n>'' (c # p @ ''<n>'' @ r)"
proof (cases p)
  case Nil
  then show ?thesis by simp
next
  case (Cons d p')
  show ?thesis
  proof (cases p')
    case Nil
    with Cons show ?thesis by simp
  next
    case (Cons e p'')
    with \<open>p = d # p'\<close> assms show ?thesis
      by (auto simp: sublist_Cons_right)
  qed
qed

lemma replace_piece:
  "\<not> sublist ''<n>'' p \<Longrightarrow>
     str_replace ''<n>'' new (p @ ''<n>'' @ r) = p @ new @ str_replace ''<n>'' new r"
proof (induction p)
  case Nil
  show ?case using str_replace_hit [of "''<n>''" new r] by simp
next
  case (Cons c p)
  have "\<not> prefix ''<n>'' (c # p @ ''<n>'' @ r)"
    using Cons.prems by (rule marker_no_overlap)
  moreover have "\<not> sublist ''<n>'' p"
    using Cons.prems by (simp add: sublist_Cons_right)
  ultimately show ?case
    using Cons.IH str_replace_miss [of "''<n>''" c "p @ ''<n>'' @ r" new] by simp
qed

lemma replace_free:
  "old \<noteq> [] \<Longrightarrow> \<not> sublist old p \<Longrightarrow> str_replace old new p = p"
proof (induction p)
  case Nil
  then show ?case by (simp add: str_replace_Nil)
next
  case (Cons c p)
  then show ?case
    by (simp add: sublist_Cons_right str_replace_miss)
qed

lemma replace_join:
  "ps \<noteq> [] \<Longrightarrow> \<forall>p\<in>set ps. \<not> sublist ''<n>'' p \<Longrightarrow>
     str_replace ''<n>'' new (join ''<n>'' ps) = join new ps"
proof (induction ps)
  case Nil
  then show ?case by simp
next
  case (Cons p ps)
  show ?case
  proof (cases ps)
    case Nil
    with Cons.prems show ?thesis by (simp add: replace_free)
  next
    case (Cons q qs)
    with Cons.prems Cons.IH show ?thesis
      using replace_piece [of p new "join ''<n>'' (q # qs)"] by simp
  qed
qed

lemma marker_pieces:
  "\<exists>ps. ps \<noteq> [] \<and> (\<forall>p\<in>set ps. \<not> sublist ''<n>'' p) \<and> s = join ''<n>'' ps"
proof (induction s rule: length_induct)
  case (1 s)
  show ?case
  proof (cases s)
    case Nil
    have "[[]] \<noteq> [] \<and> (\<forall>p\<in>set [[]]. \<not> sublist ''<n>'' p) \<and> s = join ''<n>'' [[]]"
      using Nil by simp
    then show ?thesis by blast
  next
    case (Cons c t)
    show ?thesis
    proof (cases "prefix ''<n>'' s")
      case True
      then obtain u where u: "s = ''<n>'' @ u" by (auto simp: prefix_def)
      then have "length u < length s" by simp
      with 1 obtain qs where qs: "qs \<noteq> []" "\<forall>p\<in>set qs. \<not> sublist ''<n>'' p" "u = join ''<n>'' qs"
        by blast
      from qs(1) obtain q qs' where "qs = q # qs'" by (cases qs) auto
      with u qs have "[] # qs \<noteq> [] \<and> (\<forall>p\<in>set ([] # qs). \<not> sublist ''<n>'' p)
          \<and> s = join ''<n>'' ([] # qs)"
        by simp
      then show ?thesis by blast
    next
      case False
      have "length t < length s" using Cons by simp
      with 1 obtain qs where qs: "qs \<noteq> []" "\<forall>p\<in>set qs. \<not> sublist ''<n>'' p" "t = join ''<n>'' qs"
        by blast
      from qs(1) obtain q qs' where q: "qs = q # qs'" by (cases qs) auto
      have pre: "prefix (c # q) s"
        using Cons qs(3) q by (cases qs') auto
      have "\<not> prefix ''<n>'' (c # q)"
        using False pre prefix_order.trans by blast
      then have "\<not> sublist ''<n>'' (c # q)"
        using qs(2) q by (simp add: sublist_Cons_right)
      moreover have "s = join ''<n>'' ((c # q) # qs')"
        using Cons qs(3) q by (cases qs') auto
      ultimately have "(c # q) # qs' \<noteq> [] \<and> (\<forall>p\<in>set ((c # q) # qs'). \<not> sublist ''<n>'' p)
          \<and> s = join ''<n>'' ((c # q) # qs')"
        using qs(2) q by simp
      then show ?thesis by blast
    qed
  qed
qed

lemma space_no_overlap:
  assumes "\<not> prefix ''<n>'' (c # p)"
  shows "\<not> prefix ''<n>'' (c # p @ '' '' @ r)"
proof (cases p)
  case Nil
  then show ?thesis by simp
next
  case (Cons d p')
  show ?thesis
  proof (cases p')
    case Nil
    with Cons show ?thesis by simp
  next
    case (Cons e p'')
    with \<open>p = d # p'\<close> assms show ?thesis by auto
  qed
qed

lemma marker_free_space:
  "\<not> sublist ''<n>'' p \<Longrightarrow> \<not> sublist ''<n>'' r \<Longrightarrow> \<not> sublist ''<n>'' (p @ '' '' @ r)"
proof (induction p)
  case Nil
  then show ?case by (simp add: sublist_Cons_right)
next
  case (Cons c p)
  then have "\<not> prefix ''<n>'' (c # p)" and "\<not> sublist ''<n>'' p"
    by (simp_all add: sublist_Cons_right)
  with Cons show ?case
    using space_no_overlap [of c p r] by (simp add: sublist_Cons_right)
qed

lemma marker_free_join:
  "\<forall>p\<in>set ps. \<not> sublist ''<n>'' p \<Longrightarrow> \<not> sublist ''<n>'' (join '' '' ps)"
proof (induction ps)
  case Nil
  then show ?case by simp
next
  case (Cons p ps)
  show ?case
  proof (cases ps)
    case Nil
    with Cons.prems show ?thesis by simp
  next
    case (Cons q qs)
    with Cons.prems Cons.IH show ?thesis
      using marker_free_space [of p "join '' '' (q # qs)"] by simp
  qed
qed

lemma replace_marker_free: "\<not> sublist ''<n>'' (str_replace ''<n>'' '' '' s)"
proof -
  obtain ps where ps: "ps \<noteq> []" "\<forall>p\<in>set ps. \<not> sublist ''<n>'' p" "s = join ''<n>'' ps"
    using marker_pieces by blast
  then have "str_replace ''<n>'' '' '' s = join '' '' ps"
    by (simp add: replace_join)
  with ps(2) show ?thesis by (simp add: marker_free_join)
qed

lemma replace_twice:
  "str_replace ''<n>'' '' '' (str_replace ''<n>'' '' '' s) = str_replace ''<n>'' '' '' s"
  by (rule replace_free) (simp_all add: replace_marker_free)

lemma postprocess_data_nth:
  "i < length decoded \<Longrightarrow> postprocess_data decoded ! i = str_replace ''<n>'' '' '' (decoded ! i)"
  by (simp add: postprocess_data_def)

lemma postprocess_data_length: "length (postprocess_data decoded) = length decoded"
  by (simp add: postprocess_data_def)

subsection \<open>Claims about the post-processor\<close>

text \<open>
  C3. Every decoded string can be cut at its occurrences of the marker \<open><n>\<close> into pieces
  that do not contain the marker, and the post-processor returns those pieces joined by
  single spaces, whichever way the string is cut so: every occurrence becomes one space and
  everything between the occurrences is unchanged. The output list has one string per input
  string, and \<open>Hello<n>world\<close> becomes \<open>Hello world\<close>. The post-processor is a function of
  its argument alone: it has no state to read or change.
\<close>

theorem postprocess_replaces_every_marker:
  "postprocess_data [''Hello<n>world''] = [''Hello world'']
   \<and> length (postprocess_data decoded) = length decoded
   \<and> (\<forall>i<length decoded.
        (\<exists>ps. ps \<noteq> [] \<and> (\<forall>p\<in>set ps. \<not> sublist ''<n>'' p) \<and> decoded ! i = join ''<n>'' ps)
        \<and> (\<forall>ps. ps \<noteq> [] \<and> (\<forall>p\<in>set ps. \<not> sublist ''<n>'' p) \<and> decoded ! i = join ''<n>'' ps
               \<longrightarrow> postprocess_data decoded ! i = join '' '' ps))"
proof -
  have "postprocess_data [''Hello<n>world''] = [''Hello world'']"
    by (simp add: postprocess_data_def str_replace.simps)
  moreover have "\<forall>i<length decoded.
        (\<exists>ps. ps \<noteq> [] \<and> (\<forall>p\<in>set ps. \<not> sublist ''<n>'' p) \<and> decoded ! i = join ''<n>'' ps)
        \<and> (\<forall>ps. ps \<noteq> [] \<and> (\<forall>p\<in>set ps. \<not> sublist ''<n>'' p) \<and> decoded ! i = join ''<n>'' ps
               \<longrightarrow> postprocess_data decoded ! i = join '' '' ps)"
    using marker_pieces by (simp add: postprocess_data_nth replace_join)
  ultimately show ?thesis
    by (simp add: postprocess_data_length)
qed

theorem postprocess_replaces_every_marker_witness:
  "\<not> sublist ''<n>'' ''a'' \<and> \<not> sublist ''<n>'' '''' \<and> \<not> sublist ''<n>'' ''b''
   \<and> [''x'', ''a<n><n>b''] ! 1 = join ''<n>'' [''a'', '''', ''b'']
   \<and> postprocess_data [''x'', ''a<n><n>b''] ! 1 = ''a  b''"
  using postprocess_replaces_every_marker [of "[''x'', ''a<n><n>b'']", THEN conjunct2,
      THEN conjunct2, rule_format, of 1, THEN conjunct2, rule_format, of "[''a'', '''', ''b'']"]
  by (simp add: sublist_Cons_right)

text \<open>
  C4. Post-processing is idempotent: applied to its own output it changes nothing, for
  every list of strings with any number of markers.
\<close>

theorem postprocess_idempotent:
  "postprocess_data (postprocess_data decoded) = postprocess_data decoded"
  by (simp add: postprocess_data_def replace_twice)

theorem postprocess_idempotent_witness:
  "postprocess_data (postprocess_data [''<<n>n>'', ''plain'']) = postprocess_data [''<<n>n>'', ''plain'']
   \<and> postprocess_data [''<<n>n>'', ''plain''] = [''< n>'', ''plain'']"
  using postprocess_idempotent [of "[''<<n>n>'', ''plain'']"]
  by (simp add: postprocess_data_def str_replace.simps)

text \<open>
  C9. The post-processor works element by element: the output has the length of the input,
  element \<open>i\<close> of the output is the same for any two inputs that agree at position \<open>i\<close>, and
  a string without the marker is returned as it is.
\<close>

theorem postprocess_elementwise:
  "length (postprocess_data xs) = length xs
   \<and> (\<forall>i<length xs. \<forall>ys. i < length ys \<and> ys ! i = xs ! i
         \<longrightarrow> postprocess_data ys ! i = postprocess_data xs ! i)
   \<and> (\<forall>i<length xs. \<not> sublist ''<n>'' (xs ! i) \<longrightarrow> postprocess_data xs ! i = xs ! i)"
  by (simp add: postprocess_data_def replace_free)

theorem postprocess_elementwise_witness:
  "length (postprocess_data [''a<n>'', ''n>b'']) = 2
   \<and> \<not> sublist ''<n>'' ([''a<n>'', ''n>b''] ! 1)
   \<and> postprocess_data [''a<n>'', ''n>b''] ! 1 = ''n>b''
   \<and> postprocess_data [''zz'', ''n>b'', ''c''] ! 1 = postprocess_data [''a<n>'', ''n>b''] ! 1"
  using postprocess_elementwise [of "[''a<n>'', ''n>b'']"]
  by (simp add: sublist_Cons_right postprocess_data_def str_replace.simps)

section \<open>Batching\<close>

lemma batch_sampler_concat: "concat (batch_sampler B acc xs) = acc @ xs"
  by (induction xs arbitrary: acc) (auto simp: Let_def)

lemma batch_sampler_unfold:
  "length acc < B \<Longrightarrow>
     batch_sampler B acc xs =
       (if length (acc @ xs) < B then (if acc @ xs = [] then [] else [acc @ xs])
        else take B (acc @ xs) # batch_sampler B [] (drop B (acc @ xs)))"
proof (induction xs arbitrary: acc)
  case Nil
  then show ?case by simp
next
  case (Cons x xs)
  show ?case
  proof (cases "Suc (length acc) = B")
    case True
    then have "B - length acc = Suc 0" by simp
    with True show ?thesis by (simp add: Let_def)
  next
    case False
    with Cons.prems have "length (acc @ [x]) < B" by simp
    from Cons.IH [OF this] have
      "batch_sampler B (acc @ [x]) xs =
         (if Suc (length acc + length xs) < B then [acc @ x # xs]
          else take B (acc @ x # xs) # batch_sampler B [] (drop B (acc @ x # xs)))"
      by simp
    with False show ?thesis by (simp add: Let_def)
  qed
qed

lemma DataLoader_Nil: "DataLoader [] B = []"
  by (simp add: DataLoader_def)

lemma DataLoader_Cons:
  assumes "0 < B" "xs \<noteq> []"
  shows "DataLoader xs B = take B xs # DataLoader (drop B xs) B"
proof (cases "length xs < B")
  case True
  with assms show ?thesis
    using batch_sampler_unfold [of "[]" B xs] by (simp add: DataLoader_def)
next
  case False
  with assms show ?thesis
    using batch_sampler_unfold [of "[]" B xs] by (simp add: DataLoader_def)
qed

lemma ceil_div_step:
  fixes n B :: nat
  assumes "0 < B" "0 < n"
  shows "Suc ((n - B + B - 1) div B) = (n + B - 1) div B"
proof (cases "B \<le> n")
  case True
  define m where "m = n - 1"
  have n: "n = Suc m" using assms(2) by (simp add: m_def)
  have "n - B + B - 1 = m" using True n by simp
  moreover have "n + B - 1 = m + B" using n by simp
  moreover have "(m + B) div B = Suc (m div B)" using assms(1) div_add_self2 [of B m] by simp
  ultimately show ?thesis by (simp only:)
next
  case False
  define m where "m = n - 1"
  have n: "n = Suc m" using assms(2) by (simp add: m_def)
  have mB: "m < B" using False n by simp
  have "n - B + B - 1 = B - 1" using False by simp
  moreover have "(B - 1) div B = 0" using assms(1) by simp
  moreover have "n + B - 1 = m + B" using n by simp
  moreover have "(m + B) div B = Suc (m div B)" using assms(1) div_add_self2 [of B m] by simp
  moreover have "m div B = 0" using mB by simp
  ultimately show ?thesis by (simp only:)
qed

lemma DataLoader_length:
  "0 < B \<Longrightarrow> length (DataLoader xs B) = (length xs + B - 1) div B"
proof (induction xs rule: length_induct)
  case (1 xs)
  note pos = \<open>0 < B\<close>
  show ?case
  proof (cases "xs = []")
    case True
    with pos show ?thesis by (simp add: DataLoader_Nil)
  next
    case False
    then have "length (drop B xs) < length xs" using pos by simp
    with 1 have "length (DataLoader (drop B xs) B) = (length (drop B xs) + B - 1) div B"
      by blast
    then have "length (DataLoader xs B) = Suc ((length xs - B + B - 1) div B)"
      by (simp add: DataLoader_Cons [OF pos False])
    also have "\<dots> = (length xs + B - 1) div B"
      using False pos by (intro ceil_div_step) simp_all
    finally show ?thesis .
  qed
qed

lemma DataLoader_nth:
  "0 < B \<Longrightarrow> i < length (DataLoader xs B) \<Longrightarrow> DataLoader xs B ! i = take B (drop (i * B) xs)"
proof (induction i arbitrary: xs)
  case 0
  then have "xs \<noteq> []" by (auto simp: DataLoader_Nil)
  with 0 show ?case by (simp add: DataLoader_Cons)
next
  case (Suc i)
  then have ne: "xs \<noteq> []" by (auto simp: DataLoader_Nil)
  with Suc.prems have "i < length (DataLoader (drop B xs) B)"
    by (simp add: DataLoader_Cons)
  from Suc.IH [OF Suc.prems(1) this] ne Suc.prems(1) show ?case
    by (simp add: DataLoader_Cons add.commute)
qed

lemma DataLoader_eq_Nil: "0 < B \<Longrightarrow> DataLoader xs B = [] \<longleftrightarrow> xs = []"
proof (cases "xs = []")
  case True
  then show ?thesis by (simp add: DataLoader_Nil)
next
  case False
  assume "0 < B"
  from DataLoader_Cons [OF this False] False show ?thesis by simp
qed

lemma DataLoader_full_batches:
  "0 < B \<Longrightarrow> Suc i < length (DataLoader xs B) \<Longrightarrow> length (DataLoader xs B ! i) = B"
proof (induction i arbitrary: xs)
  case 0
  then have ne: "xs \<noteq> []" by (auto simp: DataLoader_Nil)
  with 0 have "DataLoader (drop B xs) B \<noteq> []"
    by (auto simp: DataLoader_Cons)
  then have "drop B xs \<noteq> []" by (auto simp: DataLoader_Nil)
  then show ?case using 0 ne by (simp add: DataLoader_Cons)
next
  case (Suc i)
  then have ne: "xs \<noteq> []" by (auto simp: DataLoader_Nil)
  with Suc.prems have "Suc i < length (DataLoader (drop B xs) B)"
    by (simp add: DataLoader_Cons)
  from Suc.IH [OF Suc.prems(1) this] ne Suc.prems(1) show ?case
    by (simp add: DataLoader_Cons)
qed

lemma DataLoader_last_batch:
  "0 < B \<Longrightarrow> xs \<noteq> [] \<Longrightarrow>
     length (last (DataLoader xs B)) = (if length xs mod B = 0 then B else length xs mod B)"
proof (induction xs rule: length_induct)
  case (1 xs)
  note pos = \<open>0 < B\<close> and ne = \<open>xs \<noteq> []\<close>
  show ?case
  proof (cases "length xs \<le> B")
    case True
    then have "DataLoader xs B = [xs]"
      by (simp add: DataLoader_Cons [OF pos ne] DataLoader_Nil)
    moreover have "(if length xs mod B = 0 then B else length xs mod B) = length xs"
      using True ne by (cases "length xs = B") simp_all
    ultimately show ?thesis by simp
  next
    case False
    then have d: "drop B xs \<noteq> []" by simp
    have less: "length (drop B xs) < length xs" using pos ne by simp
    have "length (last (DataLoader (drop B xs) B)) =
        (if length (drop B xs) mod B = 0 then B else length (drop B xs) mod B)"
      using 1(1) less pos d by blast
    moreover have "length (drop B xs) mod B = length xs mod B"
      using False by (simp add: le_mod_geq)
    moreover have "last (DataLoader xs B) = last (DataLoader (drop B xs) B)"
      using d pos by (simp add: DataLoader_Cons [OF pos ne] DataLoader_eq_Nil)
    ultimately show ?thesis by simp
  qed
qed

text \<open>
  C2. For every batch size \<open>B\<close> of at least one and every sequence of \<open>N\<close> records, the
  data loader yields \<open>ceil(N/B)\<close> batches (computed as \<open>(N + B - 1) div B\<close>); batch \<open>i\<close>
  holds the records from position \<open>i * B\<close> on, at most \<open>B\<close> of them; every batch but the last has
  exactly \<open>B\<close> records, the last has \<open>N mod B\<close> when that is not zero and \<open>B\<close> otherwise; and the
  batches concatenated in order give back the sequence.
\<close>

theorem DataLoader_batches:
  "0 < B \<Longrightarrow>
     length (DataLoader xs B) = (length xs + B - 1) div B
     \<and> concat (DataLoader xs B) = xs
     \<and> (\<forall>i<length (DataLoader xs B). DataLoader xs B ! i = take B (drop (i * B) xs))
     \<and> (\<forall>i. Suc i < length (DataLoader xs B) \<longrightarrow> length (DataLoader xs B ! i) = B)
     \<and> (xs \<noteq> [] \<longrightarrow>
          length (last (DataLoader xs B)) = (if length xs mod B = 0 then B else length xs mod B))"
proof -
  assume pos: "0 < B"
  have "concat (DataLoader xs B) = xs"
    by (simp add: DataLoader_def batch_sampler_concat)
  moreover have "\<forall>i<length (DataLoader xs B). DataLoader xs B ! i = take B (drop (i * B) xs)"
    using pos by (simp add: DataLoader_nth)
  moreover have "\<forall>i. Suc i < length (DataLoader xs B) \<longrightarrow> length (DataLoader xs B ! i) = B"
    using pos by (simp add: DataLoader_full_batches)
  moreover have "xs \<noteq> [] \<longrightarrow>
      length (last (DataLoader xs B)) = (if length xs mod B = 0 then B else length xs mod B)"
    using pos by (simp add: DataLoader_last_batch)
  ultimately show ?thesis
    using DataLoader_length [OF pos, of xs] by blast
qed

theorem DataLoader_batches_witness:
  "(0::nat) < 3
   \<and> DataLoader [1, 2, 3, 4, 5, 6, 7 :: nat] 3 = [[1, 2, 3], [4, 5, 6], [7]]
   \<and> length (DataLoader [1, 2, 3, 4, 5, 6, 7 :: nat] 3) = (7 + 3 - 1) div 3
   \<and> concat (DataLoader [1, 2, 3, 4, 5, 6, 7 :: nat] 3) = [1, 2, 3, 4, 5, 6, 7]
   \<and> length (last (DataLoader [1, 2, 3, 4, 5, 6, 7 :: nat] 3)) = 7 mod 3"
  using DataLoader_batches [of 3 "[1, 2, 3, 4, 5, 6, 7 :: nat]"]
  by (simp add: DataLoader_def Let_def)


section \<open>Model selection\<close>

lemma truthy_simps [simp]:
  "truthy None = False" "truthy (Some s) = (s \<noteq> [])"
  by (simp_all add: truthy_def)

lemma main_config_error: "select_model a = Inl e \<Longrightarrow> main env a w = (Some e, w)"
  by (simp add: main_def)

lemma MODEL_CHECKPOINTS_keys:
  "map fst MODEL_CHECKPOINTS =
     [''bart-xsum'', ''bart-cnndm'', ''pegasus-xsum'', ''pegasus-cnndm'', ''pegasus-newsroom'',
      ''pegasus-multinews'']"
  by (simp add: MODEL_CHECKPOINTS_def)

lemma unknown_alias:
  "alias \<notin> set [''bart-xsum'', ''bart-cnndm'', ''pegasus-xsum'', ''pegasus-cnndm'',
       ''pegasus-newsroom'', ''pegasus-multinews''] \<Longrightarrow> map_of MODEL_CHECKPOINTS alias = None"
  using MODEL_CHECKPOINTS_keys by (simp only: map_of_eq_None_iff set_map [symmetric]) simp

text \<open>
  C5, as amended. An option counts as supplied when its value is a non-empty string
  (the script tests the values for truth, and the empty string is false). If both options
  are supplied so, or neither is, the run ends with a \<open>ValueError\<close> and leaves the world as
  it found it: no file was opened and no model or tokenizer was loaded. The two cases
  raise the same kind of error at the same stage, with different messages.
\<close>

theorem config_conflict_or_missing:
  "(truthy (model a) \<and> truthy (model_name_or_path a) \<longrightarrow>
      main env a w = (Some (ValueError ''Specify model or model_name_or_path but not both''), w))
   \<and> (\<not> truthy (model a) \<and> \<not> truthy (model_name_or_path a) \<longrightarrow>
      main env a w = (Some (ValueError ''Model is required''), w))"
  by (simp add: main_config_error select_model_def)

theorem config_conflict_or_missing_witness:
  "truthy (Some ''bart-xsum'') \<and> truthy (Some ''google/pegasus-xsum'')
   \<and> main echo_env \<lparr>model = Some ''bart-xsum'', model_name_or_path = Some ''google/pegasus-xsum'',
        data_path = Some ''data.jsonl''\<rparr> \<lparr>files = Map.empty, events = []\<rparr>
       = (Some (ValueError ''Specify model or model_name_or_path but not both''),
          \<lparr>files = Map.empty, events = []\<rparr>)
   \<and> \<not> truthy None
   \<and> main echo_env \<lparr>model = None, model_name_or_path = None, data_path = Some ''data.jsonl''\<rparr>
        \<lparr>files = Map.empty, events = []\<rparr>
       = (Some (ValueError ''Model is required''), \<lparr>files = Map.empty, events = []\<rparr>)"
  using config_conflict_or_missing [of "\<lparr>model = Some ''bart-xsum'',
        model_name_or_path = Some ''google/pegasus-xsum'', data_path = Some ''data.jsonl''\<rparr>"
      echo_env "\<lparr>files = Map.empty, events = []\<rparr>"]
    config_conflict_or_missing [of "\<lparr>model = None, model_name_or_path = None,
        data_path = Some ''data.jsonl''\<rparr>" echo_env "\<lparr>files = Map.empty, events = []\<rparr>"]
  by simp

text \<open>
  As stated, C5 fails: with \<open>--model ""\<close> and \<open>--model_name_or_path google/pegasus-xsum\<close>
  both options are supplied, yet the run loads the model and completes.
\<close>

theorem both_supplied_counterexample:
  "model \<lparr>model = Some '''', model_name_or_path = Some ''google/pegasus-xsum'',
        data_path = Some ''data.jsonl''\<rparr> \<noteq> None
   \<and> model_name_or_path \<lparr>model = Some '''', model_name_or_path = Some ''google/pegasus-xsum'',
        data_path = Some ''data.jsonl''\<rparr> \<noteq> None
   \<and> fst (main echo_env \<lparr>model = Some '''', model_name_or_path = Some ''google/pegasus-xsum'',
        data_path = Some ''data.jsonl''\<rparr>
        \<lparr>files = [''data.jsonl'' \<mapsto> ''one'' @ [CHR 0x0A]], events = []\<rparr>) = None
   \<and> events (snd (main echo_env \<lparr>model = Some '''', model_name_or_path = Some ''google/pegasus-xsum'',
        data_path = Some ''data.jsonl''\<rparr>
        \<lparr>files = [''data.jsonl'' \<mapsto> ''one'' @ [CHR 0x0A]], events = []\<rparr>))
       = [LoadModel ''google/pegasus-xsum'', LoadTokenizer ''google/pegasus-xsum'',
          OpenRead ''data.jsonl'', OpenWrite ''google-pegasus-xsum.data.predictions'',
          Write ''google-pegasus-xsum.data.predictions'' (''one'' @ [CHR 0x0A])]"
  by code_simp

text \<open>
  C8, as amended. If \<open>--model\<close> is given an alias that is not one of the six keys of the
  table, the run ends with an uncaught exception before any model is loaded and leaves
  the world as it found it: a \<open>KeyError\<close> naming the alias, or a \<open>ValueError\<close> when a non-empty
  \<open>--model_name_or_path\<close> is given as well or when the alias is empty and no identifier is
  given. The one exception is the empty alias together with a non-empty identifier.
\<close>

theorem unknown_alias_fails:
  assumes "model a = Some alias"
    and "alias \<notin> set [''bart-xsum'', ''bart-cnndm'', ''pegasus-xsum'', ''pegasus-cnndm'',
           ''pegasus-newsroom'', ''pegasus-multinews'']"
  shows "(alias \<noteq> [] \<and> \<not> truthy (model_name_or_path a) \<longrightarrow>
            main env a w = (Some (KeyError alias), w))
       \<and> (alias \<noteq> [] \<and> truthy (model_name_or_path a) \<longrightarrow>
            main env a w = (Some (ValueError ''Specify model or model_name_or_path but not both''), w))
       \<and> (alias = [] \<and> \<not> truthy (model_name_or_path a) \<longrightarrow>
            main env a w = (Some (ValueError ''Model is required''), w))"
  using assms(1) unknown_alias [OF assms(2)]
  by (simp add: main_config_error select_model_def)

theorem unknown_alias_fails_witness:
  "''bart'' \<notin> set [''bart-xsum'', ''bart-cnndm'', ''pegasus-xsum'', ''pegasus-cnndm'',
           ''pegasus-newsroom'', ''pegasus-multinews'']
   \<and> \<not> truthy None
   \<and> main echo_env \<lparr>model = Some ''bart'', model_name_or_path = None, data_path = Some ''data.jsonl''\<rparr>
        \<lparr>files = [''data.jsonl'' \<mapsto> ''one'' @ [CHR 0x0A]], events = []\<rparr>
       = (Some (KeyError ''bart''),
          \<lparr>files = [''data.jsonl'' \<mapsto> ''one'' @ [CHR 0x0A]], events = []\<rparr>)"
  using unknown_alias_fails [of "\<lparr>model = Some ''bart'', model_name_or_path = None,
        data_path = Some ''data.jsonl''\<rparr>" "''bart''" echo_env
        "\<lparr>files = [''data.jsonl'' \<mapsto> ''one'' @ [CHR 0x0A]], events = []\<rparr>"]
  by simp

text \<open>
  As stated, C8 fails: the empty alias is not a key of the table, but with a non-empty
  \<open>--model_name_or_path\<close> the script ignores it and loads the model named there.
\<close>

theorem empty_alias_counterexample:
  "model \<lparr>model = Some '''', model_name_or_path = Some ''facebook/bart-large-cnn'',
        data_path = Some ''in.jsonl''\<rparr> = Some ''''
   \<and> '''' \<notin> set (map fst MODEL_CHECKPOINTS)
   \<and> fst (main echo_env \<lparr>model = Some '''', model_name_or_path = Some ''facebook/bart-large-cnn'',
        data_path = Some ''in.jsonl''\<rparr>
        \<lparr>files = [''in.jsonl'' \<mapsto> ''text'' @ [CHR 0x0A]], events = []\<rparr>) = None
   \<and> take 2 (events (snd (main echo_env \<lparr>model = Some '''',
        model_name_or_path = Some ''facebook/bart-large-cnn'', data_path = Some ''in.jsonl''\<rparr>
        \<lparr>files = [''in.jsonl'' \<mapsto> ''text'' @ [CHR 0x0A]], events = []\<rparr>)))
       = [LoadModel ''facebook/bart-large-cnn'', LoadTokenizer ''facebook/bart-large-cnn'']"
  by code_simp

section \<open>Loading the dataset\<close>

lemma split_lines_concat: "concat (split_lines cur s) = cur @ s"
  by (induction s arbitrary: cur) auto

lemma split_lines_shape:
  "CHR 0x0A \<notin> set cur \<Longrightarrow>
     \<forall>l\<in>set (split_lines cur s). l \<noteq> [] \<and> CHR 0x0A \<notin> set (butlast l)"
proof (induction s arbitrary: cur)
  case Nil
  then show ?case by (auto dest: in_set_butlastD)
next
  case (Cons c s)
  show ?case
  proof (cases "c = CHR 0x0A")
    case True
    have "\<forall>l\<in>set (split_lines [] s). l \<noteq> [] \<and> CHR 0x0A \<notin> set (butlast l)"
      by (rule Cons.IH) simp
    with True Cons.prems show ?thesis by simp
  next
    case False
    with Cons.prems have "CHR 0x0A \<notin> set (cur @ [c])" by simp
    from Cons.IH [OF this] False show ?thesis by simp
  qed
qed

lemma parse_lines_all:
  "\<forall>l\<in>set ls. \<exists>v. loads l = Inr v \<Longrightarrow> parse_lines loads ls = Inr (map (\<lambda>l. projr (loads l)) ls)"
  by (induction ls) auto

lemma parse_lines_Inr:
  "parse_lines loads ls = Inr rs \<Longrightarrow>
     length rs = length ls \<and> (\<forall>i<length ls. loads (ls ! i) = Inr (rs ! i))"
proof (induction ls arbitrary: rs)
  case Nil
  then show ?case by simp
next
  case (Cons l ls)
  then obtain v vs where v: "loads l = Inr v" "parse_lines loads ls = Inr vs" "rs = v # vs"
    by (auto split: sum.splits)
  with Cons.IH [of vs] show ?case
    by (auto simp: nth_Cons split: nat.splits)
qed

lemma parse_lines_first_error:
  "i < length ls \<Longrightarrow> \<forall>j<i. \<exists>v. loads (ls ! j) = Inr v \<Longrightarrow> loads (ls ! i) = Inl e \<Longrightarrow>
     parse_lines loads ls = Inl e"
proof (induction ls arbitrary: i)
  case Nil
  then show ?case by simp
next
  case (Cons l ls)
  show ?case
  proof (cases i)
    case 0
    with Cons.prems show ?thesis by simp
  next
    case (Suc k)
    with Cons.prems(2) have "\<exists>v. loads ((l # ls) ! 0) = Inr v" by blast
    then obtain v where v: "loads l = Inr v" by auto
    have "\<forall>j<k. \<exists>v. loads (ls ! j) = Inr v"
    proof (intro allI impI)
      fix j assume "j < k"
      then have "Suc j < i" using Suc by simp
      with Cons.prems(2) have "\<exists>v. loads ((l # ls) ! Suc j) = Inr v" by blast
      then show "\<exists>v. loads (ls ! j) = Inr v" by simp
    qed
    moreover have "k < length ls" "loads (ls ! k) = Inl e"
      using Cons.prems Suc by simp_all
    ultimately have "parse_lines loads ls = Inl e"
      using Cons.IH by blast
    with v show ?thesis by simp
  qed
qed

lemma parse_lines_some_error:
  "l \<in> set ls \<Longrightarrow> loads l = Inl e \<Longrightarrow> \<exists>e'. parse_lines loads ls = Inl e'"
  by (induction ls) (auto split: sum.splits)

text \<open>
  C6. The loader reads the file line by line (the lines, put together, are the text of the
  file, and a line ends at its line break), parses each line on its own with the JSON
  parser and returns the parsed values in the order of the lines. It succeeds exactly
  when every line parses: nothing else about a record, such as a document field, is
  looked at. The first line that does not parse makes the whole load fail with the
  parser's error.
\<close>

theorem JSONDataset_parses_lines_in_order:
  assumes "files w p = Some content"
  shows "concat (readlines content) = universal_newlines content
    \<and> (\<forall>l\<in>set (readlines content). l \<noteq> [] \<and> CHR 0x0A \<notin> set (butlast l))
    \<and> snd (JSONDataset env (Some p) w) = log_event (OpenRead p) w
    \<and> ((\<forall>l\<in>set (readlines content). \<exists>v. json_loads env l = Inr v) \<longrightarrow>
          fst (JSONDataset env (Some p) w)
            = Inr (map (\<lambda>l. projr (json_loads env l)) (readlines content)))
    \<and> (\<forall>rs. fst (JSONDataset env (Some p) w) = Inr rs \<longrightarrow>
          length rs = length (readlines content)
          \<and> (\<forall>i<length rs. json_loads env (readlines content ! i) = Inr (rs ! i)))
    \<and> (\<forall>i e. i < length (readlines content)
          \<and> (\<forall>j<i. \<exists>v. json_loads env (readlines content ! j) = Inr v)
          \<and> json_loads env (readlines content ! i) = Inl e
          \<longrightarrow> fst (JSONDataset env (Some p) w) = Inl e)
    \<and> (\<forall>l\<in>set (readlines content). \<forall>e. json_loads env l = Inl e
          \<longrightarrow> (\<exists>e'. fst (JSONDataset env (Some p) w) = Inl e'))"
proof -
  have D: "JSONDataset env (Some p) w
      = (parse_lines (json_loads env) (readlines content), log_event (OpenRead p) w)"
    using assms by (simp add: JSONDataset_def)
  have "concat (readlines content) = universal_newlines content"
    by (simp add: readlines_def split_lines_concat)
  moreover have "\<forall>l\<in>set (readlines content). l \<noteq> [] \<and> CHR 0x0A \<notin> set (butlast l)"
    unfolding readlines_def by (rule split_lines_shape) simp
  moreover have "(\<forall>l\<in>set (readlines content). \<exists>v. json_loads env l = Inr v) \<longrightarrow>
          fst (JSONDataset env (Some p) w)
            = Inr (map (\<lambda>l. projr (json_loads env l)) (readlines content))"
    by (simp add: D parse_lines_all)
  moreover have "\<forall>rs. fst (JSONDataset env (Some p) w) = Inr rs \<longrightarrow>
          length rs = length (readlines content)
          \<and> (\<forall>i<length rs. json_loads env (readlines content ! i) = Inr (rs ! i))"
    using parse_lines_Inr [of "json_loads env" "readlines content"] by (simp add: D)
  moreover have "\<forall>i e. i < length (readlines content)
          \<and> (\<forall>j<i. \<exists>v. json_loads env (readlines content ! j) = Inr v)
          \<and> json_loads env (readlines content ! i) = Inl e
          \<longrightarrow> fst (JSONDataset env (Some p) w) = Inl e"
  proof (intro allI impI, elim conjE)
    fix i e
    assume "i < length (readlines content)"
      and "\<forall>j<i. \<exists>v. json_loads env (readlines content ! j) = Inr v"
      and "json_loads env (readlines content ! i) = Inl e"
    then have "parse_lines (json_loads env) (readlines content) = Inl e"
      by (rule parse_lines_first_error)
    then show "fst (JSONDataset env (Some p) w) = Inl e"
      by (simp add: D)
  qed
  moreover have "snd (JSONDataset env (Some p) w) = log_event (OpenRead p) w"
    by (simp add: D)
  moreover have "\<forall>l\<in>set (readlines content). \<forall>e. json_loads env l = Inl e
          \<longrightarrow> (\<exists>e'. fst (JSONDataset env (Some p) w) = Inl e')"
    using parse_lines_some_error [of _ "readlines content" "json_loads env"] by (simp add: D)
  ultimately show ?thesis by blast
qed

theorem JSONDataset_parses_lines_in_order_witness:
  "files \<lparr>files = [''d.jsonl'' \<mapsto> ''one'' @ [CHR 0x0A] @ ''two''], events = []\<rparr> ''d.jsonl''
     = Some (''one'' @ [CHR 0x0A] @ ''two'')
   \<and> readlines (''one'' @ [CHR 0x0A] @ ''two'') = [''one'' @ [CHR 0x0A], ''two'']
   \<and> fst (JSONDataset echo_env (Some ''d.jsonl'')
          \<lparr>files = [''d.jsonl'' \<mapsto> ''one'' @ [CHR 0x0A] @ ''two''], events = []\<rparr>)
       = Inr [''one'' @ [CHR 0x0A], ''two'']
   \<and> readlines (''one'' @ [CHR 0x0A, CHR 0x0A] @ ''two'') = [''one'' @ [CHR 0x0A], [CHR 0x0A], ''two'']
   \<and> fst (JSONDataset echo_env (Some ''d.jsonl'')
          \<lparr>files = [''d.jsonl'' \<mapsto> ''one'' @ [CHR 0x0A, CHR 0x0A] @ ''two''], events = []\<rparr>)
       = Inl (LibraryError ''JSONDecodeError'')"
  using JSONDataset_parses_lines_in_order [of
      "\<lparr>files = [''d.jsonl'' \<mapsto> ''one'' @ [CHR 0x0A] @ ''two''], events = []\<rparr>"
      "''d.jsonl''" "''one'' @ [CHR 0x0A] @ ''two''" echo_env]
    JSONDataset_parses_lines_in_order [of
      "\<lparr>files = [''d.jsonl'' \<mapsto> ''one'' @ [CHR 0x0A, CHR 0x0A] @ ''two''], events = []\<rparr>"
      "''d.jsonl''" "''one'' @ [CHR 0x0A, CHR 0x0A] @ ''two''" echo_env,
      THEN conjunct2, THEN conjunct2, THEN conjunct2, THEN conjunct2, THEN conjunct2,
      THEN conjunct1, rule_format, of 1 "LibraryError ''JSONDecodeError''"]
  by (simp add: readlines_def echo_env_def)

section \<open>The run as a whole\<close>

lemma main_run:
  assumes "select_model a = Inr (name, label)"
    and "load_model env name = Inr mdl"
    and "load_tokenizer env name = Inr tok"
    and "data_path a = Some p"
    and "files w p = Some content"
    and "parse_lines (json_loads env) (readlines content) = Inr dataset"
  shows "main env a w =
      generation_loop env mdl tok (label @ ''.'' @ fst (splitext (basename p)) @ ''.predictions'')
        (DataLoader dataset BATCH_SIZE)
        (open_write (label @ ''.'' @ fst (splitext (basename p)) @ ''.predictions'')
           (log_event (OpenRead p) (log_event (LoadTokenizer name) (log_event (LoadModel name) w))))"
  using assms by (simp add: main_def JSONDataset_def Let_def log_event_def)

lemma main_success:
  assumes "main env a w = (None, w')"
  shows "\<exists>name label mdl tok p content dataset.
      select_model a = Inr (name, label) \<and> load_model env name = Inr mdl
      \<and> load_tokenizer env name = Inr tok \<and> data_path a = Some p \<and> files w p = Some content
      \<and> parse_lines (json_loads env) (readlines content) = Inr dataset"
proof -
  obtain name label where sel: "select_model a = Inr (name, label)"
    using assms by (cases "select_model a") (auto simp: main_def)
  obtain mdl where mdl: "load_model env name = Inr mdl"
    using assms sel by (cases "load_model env name") (auto simp: main_def Let_def)
  obtain tok where tok: "load_tokenizer env name = Inr tok"
    using assms sel mdl by (cases "load_tokenizer env name") (auto simp: main_def Let_def)
  obtain p where p: "data_path a = Some p"
    using assms sel mdl tok
    by (cases "data_path a") (auto simp: main_def Let_def JSONDataset_def)
  obtain content where c: "files w p = Some content"
    using assms sel mdl tok p
    by (cases "files w p") (auto simp: main_def Let_def JSONDataset_def log_event_def)
  obtain dataset where "parse_lines (json_loads env) (readlines content) = Inr dataset"
    using assms sel mdl tok p c
    by (cases "parse_lines (json_loads env) (readlines content)")
       (auto simp: main_def Let_def JSONDataset_def log_event_def)
  with sel mdl tok p c show ?thesis by blast
qed


lemma fd_write_events: "events (fd_write fn text w) = events w @ [Write fn text]"
  by (simp add: fd_write_def log_event_def)

lemma write_examples_events:
  "events (write_examples fn exs w) = events w @ map (\<lambda>e. Write fn (e @ [CHR 0x0A])) exs"
  by (induction exs arbitrary: w) (simp_all add: fd_write_events)



lemma generation_loop_events:
  assumes "\<forall>b\<in>set bs. \<exists>ds. decode_batch env mdl tok b = Inr ds"
  shows "events (snd (generation_loop env mdl tok fn bs w)) =
      events w @ map (\<lambda>e. Write fn (e @ [CHR 0x0A]))
        (concat (map (\<lambda>b. postprocess_data (projr (decode_batch env mdl tok b))) bs))"
  using assms
proof (induction bs arbitrary: w)
  case Nil
  then show ?case by simp
next
  case (Cons b bs)
  then obtain ds where "decode_batch env mdl tok b = Inr ds" by auto
  with Cons show ?case by (simp add: write_examples_events)
qed



lemma open_write_events: "events (open_write fn w) = events w @ [OpenWrite fn]"
  by (simp add: open_write_def log_event_def)

lemma generation_loop_None:
  "fst (generation_loop env mdl tok fn bs w) = None \<Longrightarrow>
     \<forall>b\<in>set bs. \<exists>ds. decode_batch env mdl tok b = Inr ds"
proof (induction bs arbitrary: w)
  case Nil
  then show ?case by simp
next
  case (Cons b bs)
  then obtain ds where ds: "decode_batch env mdl tok b = Inr ds"
    by (cases "decode_batch env mdl tok b") auto
  with Cons.prems have "fst (generation_loop env mdl tok fn bs
      (write_examples fn (postprocess_data ds) w)) = None" by simp
  from Cons.IH [OF this] ds show ?case by simp
qed

text \<open>
  C10. When the model selection is valid, the model and tokenizer load, and the input file
  exists and is empty, the run ends normally: the dataset is empty, the data loader yields
  no batch (the loop body never runs), the output file of the computed name is created
  empty, replacing whatever a file of that name held before, no other file changes, and
  nothing is written to it.
\<close>

theorem empty_dataset_run:
  assumes "select_model a = Inr (name, label)"
    and "load_model env name = Inr mdl"
    and "load_tokenizer env name = Inr tok"
    and "data_path a = Some p"
    and "files w p = Some []"
  shows "fst (main env a w) = None
    \<and> files (snd (main env a w))
        = (files w)(label @ ''.'' @ fst (splitext (basename p)) @ ''.predictions'' \<mapsto> [])
    \<and> events (snd (main env a w))
        = events w @ [LoadModel name, LoadTokenizer name, OpenRead p,
             OpenWrite (label @ ''.'' @ fst (splitext (basename p)) @ ''.predictions'')]
    \<and> DataLoader (projr (fst (JSONDataset env (data_path a) w))) BATCH_SIZE = []"
proof -
  have "parse_lines (json_loads env) (readlines []) = Inr []"
    by (simp add: readlines_def)
  from main_run [OF assms this] assms(4,5) show ?thesis
    by (simp add: DataLoader_def open_write_def log_event_def JSONDataset_def readlines_def)
qed

theorem empty_dataset_run_witness:
  "select_model \<lparr>model = Some ''bart-cnndm'', model_name_or_path = None, data_path = Some ''runs/empty.jsonl''\<rparr>
     = Inr (''facebook/bart-large-cnn'', ''bart-cnndm'')
   \<and> fst (main echo_env \<lparr>model = Some ''bart-cnndm'', model_name_or_path = None, data_path = Some ''runs/empty.jsonl''\<rparr>
        \<lparr>files = [''runs/empty.jsonl'' \<mapsto> [], ''bart-cnndm.empty.predictions'' \<mapsto> ''old''], events = []\<rparr>)
     = None
   \<and> files (snd (main echo_env \<lparr>model = Some ''bart-cnndm'', model_name_or_path = None, data_path = Some ''runs/empty.jsonl''\<rparr>
        \<lparr>files = [''runs/empty.jsonl'' \<mapsto> [], ''bart-cnndm.empty.predictions'' \<mapsto> ''old''], events = []\<rparr>))
        ''bart-cnndm.empty.predictions'' = Some []
   \<and> events (snd (main echo_env \<lparr>model = Some ''bart-cnndm'', model_name_or_path = None, data_path = Some ''runs/empty.jsonl''\<rparr>
        \<lparr>files = [''runs/empty.jsonl'' \<mapsto> [], ''bart-cnndm.empty.predictions'' \<mapsto> ''old''], events = []\<rparr>))
     = [LoadModel ''facebook/bart-large-cnn'', LoadTokenizer ''facebook/bart-large-cnn'',
             OpenRead ''runs/empty.jsonl'', OpenWrite ''bart-cnndm.empty.predictions'']"
  using empty_dataset_run [of "\<lparr>model = Some ''bart-cnndm'', model_name_or_path = None,
        data_path = Some ''runs/empty.jsonl''\<rparr>" "''facebook/bart-large-cnn''" "''bart-cnndm''"
      echo_env "''facebook/bart-large-cnn''" "''facebook/bart-large-cnn''" "''runs/empty.jsonl''"
      "\<lparr>files = [''runs/empty.jsonl'' \<mapsto> [], ''bart-cnndm.empty.predictions'' \<mapsto> ''old''], events = []\<rparr>"]
  by (simp add: select_model_def MODEL_CHECKPOINTS_def truthy_def echo_env_def basename_def splitext_def
      splitext_loop.simps)

section \<open>The name of the output file\<close>

lemma rfind_ge: "- 1 \<le> rfind s c"
  by (induction s) (auto simp: Let_def)

lemma rfind_sign: "(c \<in> set s \<longrightarrow> 0 \<le> rfind s c) \<and> (c \<notin> set s \<longrightarrow> rfind s c = - 1)"
  by (induction s) (auto simp: Let_def)

lemma rfind_absent: "rfind s c = - 1 \<longleftrightarrow> c \<notin> set s"
  using rfind_sign [of c s] by auto

lemma rfind_present:
  "c \<in> set s \<Longrightarrow>
     0 \<le> rfind s c \<and> nat (rfind s c) < length s \<and> s ! nat (rfind s c) = c
     \<and> c \<notin> set (drop (Suc (nat (rfind s c))) s)"
proof (induction s)
  case Nil
  then show ?case by simp
next
  case (Cons x s)
  show ?case
  proof (cases "c \<in> set s")
    case True
    with Cons.IH have IH: "0 \<le> rfind s c" "nat (rfind s c) < length s" "s ! nat (rfind s c) = c"
      "c \<notin> set (drop (Suc (nat (rfind s c))) s)" by simp_all
    have "nat (rfind s c + 1) = Suc (nat (rfind s c))" using IH(1) by simp
    with IH show ?thesis by (simp add: Let_def)
  next
    case False
    then have "rfind s c = - 1" by (simp add: rfind_absent)
    with Cons.prems False show ?thesis by (simp add: Let_def)
  qed
qed

lemma basename_split:
  "\<exists>dir. p = dir @ basename p \<and> (dir = [] \<or> last dir = CHR ''/'')"
proof (cases "CHR ''/'' \<in> set p")
  case False
  then have "rfind p (CHR ''/'') = - 1" by (simp add: rfind_absent)
  then have "basename p = p" by (simp add: basename_def)
  then show ?thesis by simp
next
  case True
  define k where "k = nat (rfind p (CHR ''/''))"
  from rfind_present [OF True] have k: "0 \<le> rfind p (CHR ''/'')" "k < length p" "p ! k = CHR ''/''"
    by (simp_all add: k_def)
  have "nat (rfind p (CHR ''/'') + 1) = Suc k" using k(1) by (simp add: k_def)
  then have b: "basename p = drop (Suc k) p" by (simp add: basename_def)
  have "take (Suc k) p \<noteq> []" using k(2) by auto
  moreover have "last (take (Suc k) p) = CHR ''/''"
    using k(2,3) by (simp add: take_Suc_conv_app_nth)
  moreover have "p = take (Suc k) p @ basename p" by (simp add: b)
  ultimately show ?thesis by blast
qed

lemma basename_no_sep: "CHR ''/'' \<notin> set (basename p)"
proof (cases "CHR ''/'' \<in> set p")
  case False
  then have "rfind p (CHR ''/'') = - 1" by (simp add: rfind_absent)
  then have "basename p = p" by (simp add: basename_def)
  with False show ?thesis by simp
next
  case True
  from rfind_present [OF True] have k: "0 \<le> rfind p (CHR ''/'')"
    "CHR ''/'' \<notin> set (drop (Suc (nat (rfind p (CHR ''/'')))) p)"
    by simp_all
  have "nat (rfind p (CHR ''/'') + 1) = Suc (nat (rfind p (CHR ''/'')))" using k(1) by simp
  with k(2) show ?thesis by (simp add: basename_def)
qed

lemma splitext_loop_cases:
  "splitext_loop p i d = (take d p, drop d p) \<or> splitext_loop p i d = (p, [])"
proof (induction p i d rule: splitext_loop.induct)
  case (1 p i d)
  then show ?case by (subst (1 2) splitext_loop.simps) auto
qed

lemma splitext_cases:
  "splitext b = (b, []) \<or>
   (CHR ''.'' \<in> set b \<and>
    splitext b = (take (nat (rfind b (CHR ''.''))) b, drop (nat (rfind b (CHR ''.''))) b))"
proof (cases "rfind b (CHR ''/'') < rfind b (CHR ''.'')")
  case False
  then show ?thesis by (simp add: splitext_def)
next
  case True
  then have "rfind b (CHR ''.'') \<noteq> - 1" using rfind_ge [of b "CHR ''/''"] by simp
  then have "CHR ''.'' \<in> set b" by (simp add: rfind_absent)
  with True show ?thesis
    using splitext_loop_cases [of b "nat (rfind b (CHR ''/'') + 1)" "nat (rfind b (CHR ''.''))"]
    by (auto simp: splitext_def)
qed

lemma splitext_parts:
  "fst (splitext b) @ snd (splitext b) = b
   \<and> (snd (splitext b) = [] \<or>
       (hd (snd (splitext b)) = CHR ''.'' \<and> CHR ''.'' \<notin> set (tl (snd (splitext b)))))"
proof -
  from splitext_cases [of b] show ?thesis
  proof
    assume "splitext b = (b, [])"
    then show ?thesis by simp
  next
    assume a: "CHR ''.'' \<in> set b \<and>
      splitext b = (take (nat (rfind b (CHR ''.''))) b, drop (nat (rfind b (CHR ''.''))) b)"
    define k where "k = nat (rfind b (CHR ''.''))"
    from a rfind_present [of "CHR ''.''" b] have k: "k < length b" "b ! k = CHR ''.''"
      "CHR ''.'' \<notin> set (drop (Suc k) b)"
      by (simp_all add: k_def)
    have s: "splitext b = (take k b, drop k b)" using a by (simp add: k_def)
    have d: "drop k b = CHR ''.'' # drop (Suc k) b"
      using k(1,2) by (simp add: Cons_nth_drop_Suc [symmetric])
    have "fst (splitext b) @ snd (splitext b) = b" by (simp add: s)
    moreover have "hd (snd (splitext b)) = CHR ''.''" by (simp add: s d)
    moreover have "CHR ''.'' \<notin> set (tl (snd (splitext b)))" using k(3) by (simp add: s d)
    ultimately show ?thesis by blast
  qed
qed

lemma replace_char:
  "str_replace [a] [b] s = map (\<lambda>c. if c = a then b else c) s"
proof (induction s)
  case Nil
  then show ?case by (simp add: str_replace_Nil)
next
  case (Cons c s)
  show ?case
  proof (cases "c = a")
    case True
    with Cons show ?thesis using str_replace_hit [of "[a]" "[b]" s] by simp
  next
    case False
    with Cons show ?thesis by (simp add: str_replace_miss)
  qed
qed

lemma select_model_label:
  assumes "select_model a = Inr (name, label)"
  shows "(truthy (model a) \<longrightarrow> model a = Some label \<and> map_of MODEL_CHECKPOINTS label = Some name)
       \<and> (\<not> truthy (model a) \<longrightarrow> model_name_or_path a = Some name
            \<and> label = map (\<lambda>c. if c = CHR ''/'' then CHR ''-'' else c) name)"
  using assms
  by (auto simp: select_model_def replace_char split: if_splits option.splits)

lemma bart_xsum_run:
  "fst (main echo_env
      \<lparr>model = Some ''bart-xsum'', model_name_or_path = None, data_path = Some ''/data/xsum.test.jsonl''\<rparr>
      \<lparr>files = [''/data/xsum.test.jsonl'' \<mapsto> ''first'' @ [CHR 0x0A] @ ''second'' @ [CHR 0x0A]],
        events = []\<rparr>) = None
   \<and> events (snd (main echo_env
      \<lparr>model = Some ''bart-xsum'', model_name_or_path = None, data_path = Some ''/data/xsum.test.jsonl''\<rparr>
      \<lparr>files = [''/data/xsum.test.jsonl'' \<mapsto> ''first'' @ [CHR 0x0A] @ ''second'' @ [CHR 0x0A]],
        events = []\<rparr>))
     = [LoadModel ''facebook/bart-large-xsum'', LoadTokenizer ''facebook/bart-large-xsum'',
        OpenRead ''/data/xsum.test.jsonl'', OpenWrite ''bart-xsum.xsum.test.predictions'',
        Write ''bart-xsum.xsum.test.predictions'' (''first'' @ [CHR 0x0A]),
        Write ''bart-xsum.xsum.test.predictions'' (''second'' @ [CHR 0x0A])]"
  by code_simp

text \<open>
  C7. In every run that ends normally, the file opened for writing, and the only file
  written to, is named \<open><label>.<root>.predictions\<close>. Here \<open>root\<close> is the base name of the
  data path (what follows its last slash) without its extension: base name is \<open>root\<close>
  followed by the extension, which is empty or a dot followed by characters other than a
  dot. The label is the alias when the script takes the \<open>--model\<close> branch (the alias is then
  a key of the table, and the model loaded is the table's entry for it), and otherwise
  the explicit identifier with every slash replaced by a hyphen.
\<close>

theorem output_filename:
  assumes "main env a w = (None, w')"
  shows "\<exists>name label p texts.
      data_path a = Some p
    \<and> events w' = events w @ [LoadModel name, LoadTokenizer name, OpenRead p,
          OpenWrite (label @ ''.'' @ fst (splitext (basename p)) @ ''.predictions'')]
          @ map (Write (label @ ''.'' @ fst (splitext (basename p)) @ ''.predictions'')) texts
    \<and> (truthy (model a) \<longrightarrow> model a = Some label \<and> map_of MODEL_CHECKPOINTS label = Some name)
    \<and> (\<not> truthy (model a) \<longrightarrow> model_name_or_path a = Some name
          \<and> label = map (\<lambda>c. if c = CHR ''/'' then CHR ''-'' else c) name)
    \<and> (\<exists>dir. p = dir @ basename p \<and> (dir = [] \<or> last dir = CHR ''/''))
    \<and> CHR ''/'' \<notin> set (basename p)
    \<and> fst (splitext (basename p)) @ snd (splitext (basename p)) = basename p
    \<and> (snd (splitext (basename p)) = []
        \<or> (hd (snd (splitext (basename p))) = CHR ''.''
           \<and> CHR ''.'' \<notin> set (tl (snd (splitext (basename p))))))"
proof -
  from main_success [OF assms] obtain name label mdl tok p content dataset where
    h: "select_model a = Inr (name, label)" "load_model env name = Inr mdl"
      "load_tokenizer env name = Inr tok" "data_path a = Some p" "files w p = Some content"
      "parse_lines (json_loads env) (readlines content) = Inr dataset"
    by blast
  define filename where
    "filename = label @ ''.'' @ fst (splitext (basename p)) @ ''.predictions''"
  define w3 where
    "w3 = log_event (OpenRead p) (log_event (LoadTokenizer name) (log_event (LoadModel name) w))"
  have run: "main env a w =
      generation_loop env mdl tok filename (DataLoader dataset BATCH_SIZE) (open_write filename w3)"
    unfolding filename_def w3_def by (rule main_run [OF h])
  with assms have "fst (generation_loop env mdl tok filename (DataLoader dataset BATCH_SIZE)
      (open_write filename w3)) = None" by simp
  then have dec: "\<forall>b\<in>set (DataLoader dataset BATCH_SIZE). \<exists>ds. decode_batch env mdl tok b = Inr ds"
    by (rule generation_loop_None)
  have "events w' = events (snd (main env a w))" using assms by simp
  also have "\<dots> = events (open_write filename w3)
      @ map (\<lambda>e. Write filename (e @ [CHR 0x0A]))
          (concat (map (\<lambda>b. postprocess_data (projr (decode_batch env mdl tok b)))
             (DataLoader dataset BATCH_SIZE)))"
    unfolding run using dec by (rule generation_loop_events)
  also have "events (open_write filename w3)
      = events w @ [LoadModel name, LoadTokenizer name, OpenRead p, OpenWrite filename]"
    by (simp add: open_write_events w3_def log_event_def)
  also have "map (\<lambda>e. Write filename (e @ [CHR 0x0A]))
          (concat (map (\<lambda>b. postprocess_data (projr (decode_batch env mdl tok b)))
             (DataLoader dataset BATCH_SIZE)))
      = map (Write filename) (map (\<lambda>e. e @ [CHR 0x0A])
          (concat (map (\<lambda>b. postprocess_data (projr (decode_batch env mdl tok b)))
             (DataLoader dataset BATCH_SIZE))))"
    by simp
  finally have ev: "\<exists>texts. events w' = events w
      @ [LoadModel name, LoadTokenizer name, OpenRead p, OpenWrite filename]
      @ map (Write filename) texts"
    by (metis append_assoc)
  from ev h(4) select_model_label [OF h(1)] basename_split [of p] basename_no_sep [of p]
    splitext_parts [of "basename p"]
  show ?thesis unfolding filename_def by blast
qed

theorem output_filename_witness:
  "main echo_env
      \<lparr>model = Some ''bart-xsum'', model_name_or_path = None, data_path = Some ''/data/xsum.test.jsonl''\<rparr>
      \<lparr>files = [''/data/xsum.test.jsonl'' \<mapsto> ''first'' @ [CHR 0x0A] @ ''second'' @ [CHR 0x0A]],
        events = []\<rparr>
     = (None, snd (main echo_env
      \<lparr>model = Some ''bart-xsum'', model_name_or_path = None, data_path = Some ''/data/xsum.test.jsonl''\<rparr>
      \<lparr>files = [''/data/xsum.test.jsonl'' \<mapsto> ''first'' @ [CHR 0x0A] @ ''second'' @ [CHR 0x0A]],
        events = []\<rparr>))
   \<and> map_of MODEL_CHECKPOINTS ''bart-xsum'' = Some ''facebook/bart-large-xsum''
   \<and> basename ''/data/xsum.test.jsonl'' = ''xsum.test.jsonl''
   \<and> splitext ''xsum.test.jsonl'' = (''xsum.test'', ''.jsonl'')
   \<and> events (snd (main echo_env
      \<lparr>model = Some ''bart-xsum'', model_name_or_path = None, data_path = Some ''/data/xsum.test.jsonl''\<rparr>
      \<lparr>files = [''/data/xsum.test.jsonl'' \<mapsto> ''first'' @ [CHR 0x0A] @ ''second'' @ [CHR 0x0A]],
        events = []\<rparr>))
     = [LoadModel ''facebook/bart-large-xsum'', LoadTokenizer ''facebook/bart-large-xsum'',
        OpenRead ''/data/xsum.test.jsonl'', OpenWrite ''bart-xsum.xsum.test.predictions'',
        Write ''bart-xsum.xsum.test.predictions'' (''first'' @ [CHR 0x0A]),
        Write ''bart-xsum.xsum.test.predictions'' (''second'' @ [CHR 0x0A])]"
  using bart_xsum_run
    output_filename [of echo_env
      "\<lparr>model = Some ''bart-xsum'', model_name_or_path = None, data_path = Some ''/data/xsum.test.jsonl''\<rparr>"
      "\<lparr>files = [''/data/xsum.test.jsonl'' \<mapsto> ''first'' @ [CHR 0x0A] @ ''second'' @ [CHR 0x0A]],
        events = []\<rparr>"
      "snd (main echo_env
      \<lparr>model = Some ''bart-xsum'', model_name_or_path = None, data_path = Some ''/data/xsum.test.jsonl''\<rparr>
      \<lparr>files = [''/data/xsum.test.jsonl'' \<mapsto> ''first'' @ [CHR 0x0A] @ ''second'' @ [CHR 0x0A]],
        events = []\<rparr>)"]
  by (simp add: prod_eq_iff MODEL_CHECKPOINTS_def basename_def splitext_def splitext_loop.simps)

section \<open>One output line per record\<close>









end
